theory Spec2Isabelle
  imports Complex_Main
begin

section \<open>The retry generator of \<^verbatim>\<open>toil/jobStores/utils.py\<close>\<close>

text \<open>
  The module holds one generator, \<^verbatim>\<open>retry\<close>, and two logging helpers.  The generator
  yields context managers and is meant to be driven by the idiom of its docstring,

  \<^verbatim>\<open>for attempt in retry(delays, timeout, predicate):
      with attempt:
          <operation>\<close>

  The embedding follows the control flow of the generator with that idiom around it:
  at every \<^verbatim>\<open>yield\<close> the caller runs one attempt inside the yielded guard, the guard's
  exit code runs, and either an exception leaves the loop or the generator is resumed.

  Seconds are Python numbers in the source, floats as a rule.  The model leaves their type
  \<open>'t\<close> open: any linearly ordered type with a zero and an addition.  Nothing is assumed
  of the addition, so it may round as float addition does; the order is linear, which
  leaves out NaN, the one float that no comparison orders.  The sample runs further down
  use the reals at values that floats hold exactly.
\<close>

subsection \<open>Iterators\<close>

text \<open>
  \<^verbatim>\<open>delays\<close> is any iterable, finite or not; \<^verbatim>\<open>iter(delays)\<close> is what remains of it.
\<close>

codatatype 'a iterator = Exhausted | Item 'a "'a iterator"

primrec iter :: "'a list \<Rightarrow> 'a iterator" where
  "iter [] = Exhausted"
| "iter (x # xs) = Item x (iter xs)"

text \<open>\<^verbatim>\<open>next(it)\<close>: \<open>None\<close> stands for the \<^verbatim>\<open>StopIteration\<close> it raises when exhausted.\<close>

definition next1 :: "'a iterator \<Rightarrow> ('a \<times> 'a iterator) option" where
  "next1 it = (case it of Exhausted \<Rightarrow> None | Item x it' \<Rightarrow> Some (x, it'))"

text \<open>\<^verbatim>\<open>next(it, default)\<close>.\<close>

definition next2 :: "'a iterator \<Rightarrow> 'a \<Rightarrow> 'a \<times> 'a iterator" where
  "next2 it dflt = (case it of Exhausted \<Rightarrow> (dflt, Exhausted) | Item x it' \<Rightarrow> (x, it'))"

subsection \<open>Exceptions, guards and the observable world\<close>

text \<open>
  An exception object supplied by the caller (raised by the operation or by the
  predicate) is an opaque value of type \<open>'e\<close>, tagged with whether it is an instance of
  \<^verbatim>\<open>Exception\<close>, which \<^verbatim>\<open>except Exception\<close> catches, or of \<^verbatim>\<open>BaseException\<close> only
  (\<^verbatim>\<open>KeyboardInterrupt\<close>, \<^verbatim>\<open>SystemExit\<close>), which it does not.
\<close>

datatype 'e thrown = Exc 'e | BaseExc 'e

text \<open>
  What can leave the loop: a caller-supplied exception, or one raised by the
  interpreter or the library on behalf of the generator's own statements: the exception
  of \<^verbatim>\<open>time.sleep\<close> refusing a duration (\<^verbatim>\<open>ValueError\<close>, \<^verbatim>\<open>OverflowError\<close> or \<^verbatim>\<open>IOError\<close>,
  by interpreter), \<^verbatim>\<open>go.pop()\<close> on an empty list, and the \<^verbatim>\<open>RuntimeError\<close> into which
  PEP 479 turns a \<^verbatim>\<open>StopIteration\<close> raised in a generator body.
\<close>

datatype 'e failure = Thrown "'e thrown" | SleepError | IndexError | RuntimeError

datatype 'e completion = Finished | Raised "'e failure"

datatype 't guard = RepeatedAttempt 't | SingleAttempt

datatype ('e, 't) event =
    Yielded "'t guard"
  | PredicateCalled 'e
  | LogInfo 'e 't
  | Sleep 't

text \<open>
  The world records what the generator does that can be observed: how often it has read
  the clock, and the guards it yielded, the predicate calls, the log lines and the sleeps,
  in order.
\<close>

record ('e, 't) world =
  reads :: nat
  trace :: "('e, 't) event list"

text \<open>
  The environment of one loop: the \<open>i\<close>-th call of \<^verbatim>\<open>time.time()\<close> returns \<open>clock i\<close>
  (any function: no monotonicity is assumed); the operation of round \<open>k\<close> completes
  (\<open>None\<close>) or raises (\<open>Some x\<close>); \<open>sleep_accepts\<close> holds of the durations that the
  platform's \<^verbatim>\<open>time.sleep\<close> takes (it refuses those beyond a limit of its own, about
  \<open>9.2e9\<close> seconds on CPython 3); and \<open>pep479\<close> says whether the interpreter turns a
  \<^verbatim>\<open>StopIteration\<close> raised in a generator body into \<^verbatim>\<open>RuntimeError\<close> (Python 3.7 and
  later) or lets it end the iteration (before).
\<close>

record ('e, 't) env =
  clock :: "nat \<Rightarrow> 't"
  body :: "nat \<Rightarrow> 'e thrown option"
  sleep_accepts :: "'t \<Rightarrow> bool"
  pep479 :: bool

type_synonym 'e predicate = "'e \<Rightarrow> 'e thrown + bool"

definition emit :: "('e, 't) event \<Rightarrow> ('e, 't) world \<Rightarrow> ('e, 't) world" where
  "emit ev w = w\<lparr>trace := trace w @ [ev]\<rparr>"

definition time_time :: "('e, 't) env \<Rightarrow> ('e, 't) world \<Rightarrow> 't \<times> ('e, 't) world" where
  "time_time E w = (clock E (reads w), w\<lparr>reads := Suc (reads w)\<rparr>)"

text \<open>
  \<^verbatim>\<open>time.sleep(d)\<close> blocks for \<open>d\<close> seconds; it raises on a negative \<open>d\<close> and on one that
  the platform does not take.
\<close>

definition time_sleep ::
  "('e, 't :: {linorder, zero}) env \<Rightarrow> 't \<Rightarrow> ('e, 't) world
     \<Rightarrow> 'e failure option \<times> ('e, 't) world" where
  "time_sleep E d w =
     (if d < 0 \<or> \<not> sleep_accepts E d then (Some SleepError, w) else (None, emit (Sleep d) w))"

text \<open>A predicate returns a truth value (\<open>Inr\<close>) or raises (\<open>Inl\<close>).\<close>

definition never :: "'e predicate" where
  "never exception = Inr False"

subsection \<open>The two guards\<close>

text \<open>
  The variables of the \<^verbatim>\<open>timeout > 0\<close> branch: the list \<^verbatim>\<open>go\<close> (initially \<^verbatim>\<open>[None]\<close>),
  shared with the guards, the iterator, the deadline and the current delay.
\<close>

record 't frame =
  go :: "unit list"
  delays :: "'t iterator"
  expiration :: 't
  delay :: 't

text \<open>
  \<^verbatim>\<open>with repeated_attempt(d): <operation>\<close>, given how the operation ended.  The result is
  the exception that leaves the \<^verbatim>\<open>with\<close> statement, if any.
\<close>

definition repeated_attempt ::
  "('e, 't :: {linorder, zero, plus}) env \<Rightarrow> 'e predicate \<Rightarrow> 't \<Rightarrow> 'e thrown option
     \<Rightarrow> 't frame \<Rightarrow> ('e, 't) world \<Rightarrow> 'e failure option \<times> 't frame \<times> ('e, 't) world" where
  "repeated_attempt E predicate d outcome f w =
     (case outcome of
        None \<Rightarrow>
          (if go f = [] then (Some IndexError, f, w)
           else (None, f\<lparr>go := butlast (go f)\<rparr>, w))
      | Some (BaseExc b) \<Rightarrow> (Some (Thrown (BaseExc b)), f, w)
      | Some (Exc e) \<Rightarrow>
          (let (now, w1) = time_time E w in
           if now + d < expiration f then
             (case predicate e of
                Inl x \<Rightarrow> (Some (Thrown x), f, emit (PredicateCalled e) w1)
              | Inr True \<Rightarrow>
                  (let (r, w2) = time_sleep E d (emit (LogInfo e d) (emit (PredicateCalled e) w1))
                   in (r, f, w2))
              | Inr False \<Rightarrow> (Some (Thrown (Exc e)), f, emit (PredicateCalled e) w1))
           else (Some (Thrown (Exc e)), f, w1)))"

text \<open>\<^verbatim>\<open>with single_attempt(): <operation>\<close>: nothing is caught.\<close>

definition single_attempt ::
  "'e thrown option \<Rightarrow> ('e, 't) world \<Rightarrow> 'e failure option \<times> ('e, 't) world" where
  "single_attempt outcome w = (map_option Thrown outcome, w)"

subsection \<open>The loop\<close>

text \<open>
  \<^verbatim>\<open>while go: yield repeated_attempt(delay); delay = next(delays, delay)\<close>, with the
  attempt of round \<open>k\<close> run at the \<^verbatim>\<open>yield\<close>.  The first argument bounds the number of rounds:
  the loop has no bound of its own, and \<open>None\<close> says that it is still running after that
  many rounds.
\<close>

text \<open>\<^verbatim>\<open>delay = next(delays, delay)\<close>.\<close>

definition advance :: "'t frame \<Rightarrow> 't frame" where
  "advance f = (let (d, ds) = next2 (delays f) (delay f) in f\<lparr>delays := ds, delay := d\<rparr>)"

fun rounds ::
  "('e, 't :: {linorder, zero, plus}) env \<Rightarrow> 'e predicate \<Rightarrow> nat \<Rightarrow> nat \<Rightarrow> 't frame
     \<Rightarrow> ('e, 't) world \<Rightarrow> 'e completion option \<times> ('e, 't) world"
where
  "rounds E predicate 0 k f w = (if go f = [] then (Some Finished, w) else (None, w))"
| "rounds E predicate (Suc n) k f w =
     (if go f = [] then (Some Finished, w)
      else
        (case repeated_attempt E predicate (delay f) (body E k) f
                (emit (Yielded (RepeatedAttempt (delay f))) w) of
           (Some x, f', w') \<Rightarrow> (Some (Raised x), w')
         | (None, f', w') \<Rightarrow> rounds E predicate n (Suc k) (advance f') w'))"

text \<open>
  The generator under its \<^verbatim>\<open>for\<close> loop.  Nothing runs before the first \<^verbatim>\<open>next\<close>; then
  the branch is chosen, and with \<^verbatim>\<open>timeout > 0\<close> the clock is read once for the deadline
  and the first delay is taken.  A \<^verbatim>\<open>StopIteration\<close> from \<^verbatim>\<open>next(delays)\<close> leaves the
  generator body: the \<^verbatim>\<open>for\<close> loop sees the end of the iteration, or, under PEP 479, a
  \<^verbatim>\<open>RuntimeError\<close>.
\<close>

definition retry ::
  "('e, 't :: {linorder, zero, plus}) env \<Rightarrow> nat \<Rightarrow> 't iterator \<Rightarrow> 't \<Rightarrow> 'e predicate
     \<Rightarrow> ('e, 't) world \<Rightarrow> 'e completion option \<times> ('e, 't) world" where
  "retry E n ds timeout predicate w =
     (if timeout > 0 then
        (let (now, w1) = time_time E w;
             deadline = now + timeout
         in case next1 ds of
              None \<Rightarrow> (Some (if pep479 E then Raised RuntimeError else Finished), w1)
            | Some (d, ds') \<Rightarrow>
                rounds E predicate n 0
                  \<lparr>go = [()], delays = ds', expiration = deadline, delay = d\<rparr> w1)
      else
        (case single_attempt (body E 0) (emit (Yielded SingleAttempt) w) of
           (Some x, w') \<Rightarrow> (Some (Raised x), w')
         | (None, w') \<Rightarrow> (Some Finished, w')))"

text \<open>What a trace shows.\<close>

definition guards :: "('e, 't) world \<Rightarrow> 't guard list" where
  "guards w = concat (map (\<lambda>ev. case ev of Yielded g \<Rightarrow> [g] | _ \<Rightarrow> []) (trace w))"

definition sleeps :: "('e, 't) world \<Rightarrow> 't list" where
  "sleeps w = concat (map (\<lambda>ev. case ev of Sleep d \<Rightarrow> [d] | _ \<Rightarrow> []) (trace w))"

definition predicate_calls :: "('e, 't) world \<Rightarrow> 'e list" where
  "predicate_calls w =
     concat (map (\<lambda>ev. case ev of PredicateCalled e \<Rightarrow> [e] | _ \<Rightarrow> []) (trace w))"

definition world0 :: "('e, 't) world" where
  "world0 = \<lparr>reads = 0, trace = []\<rparr>"

section \<open>The logging helpers\<close>

datatype level = DEBUG | INFO | ERROR

text \<open>A logger is the list of the records it was handed, oldest first.\<close>

type_synonym logger = "(level \<times> string) list"

definition quoted :: "string \<Rightarrow> string" where
  "quoted s = [CHR 0x27] @ s @ [CHR 0x27]"




text \<open>\<^verbatim>\<open>log_delete_completed(log, locator, existed, failure)\<close>.\<close>

definition log_delete_completed :: "logger \<Rightarrow> string \<Rightarrow> bool \<Rightarrow> bool \<Rightarrow> logger" where
  "log_delete_completed lg locator existed failure =
     (if existed \<and> \<not> failure then
        lg @ [(INFO, ''Successfully deleted job store at location '' @ quoted locator @ ''.'')]
      else if \<not> existed then
        lg @ [(INFO, ''No job store found at location '' @ quoted locator @ ''.'')]
      else if failure then
        lg @ [(ERROR, ''Completed job store deletion at location '' @ quoted locator
                       @ '' with errors see log for details.'')]
      else lg)"

section \<open>The schedule in the words of the specification\<close>

text \<open>
  The delay that the specification gives round \<open>k\<close> (counted from 0) of a finite
  schedule: its \<open>k\<close>-th value, and its last value once the schedule is used up.
\<close>

definition round_delay :: "'t list \<Rightarrow> nat \<Rightarrow> 't" where
  "round_delay ds k = (if k < length ds then ds ! k else last ds)"

section \<open>Sample environments\<close>

text \<open>
  The operation of the docstring's examples, \<^verbatim>\<open>raise RuntimeError('foo')\<close> in every round,
  under a clock that advances by \<open>step\<close> seconds from one reading to the next, and with the
  sleep limit of CPython 3 on a 64-bit platform (its clock counts nanoseconds in 63 bits).
\<close>

definition failing :: "real \<Rightarrow> bool \<Rightarrow> (string, real) env" where
  "failing step p479 =
     \<lparr>clock = (\<lambda>i. real i * step), body = (\<lambda>k. Some (Exc ''foo'')),
      sleep_accepts = (\<lambda>d. d \<le> 9223372036), pep479 = p479\<rparr>"

text \<open>An operation that fails in the rounds before round \<open>j\<close> and completes from then on.\<close>

definition succeeding_at :: "nat \<Rightarrow> real \<Rightarrow> (string, real) env" where
  "succeeding_at j step =
     \<lparr>clock = (\<lambda>i. real i * step),
      body = (\<lambda>k. if k < j then Some (Exc ''foo'') else None),
      sleep_accepts = (\<lambda>d. d \<le> 9223372036),
      pep479 = True\<rparr>"

definition true :: "string predicate" where
  "true _ = Inr True"

section \<open>The one-shot path\<close>

lemma retry_single:
  "\<not> 0 < timeout \<Longrightarrow>
   retry E n ds timeout predicate w =
     (Some (case body E 0 of None \<Rightarrow> Finished | Some x \<Rightarrow> Raised (Thrown x)),
      w\<lparr>trace := trace w @ [Yielded SingleAttempt]\<rparr>)"
  by (cases "body E 0") (simp_all add: retry_def single_attempt_def emit_def)

text \<open>
  Claim C2.  With a timeout of exactly 0 the loop yields exactly one guard, the
  non-catching one, whatever the schedule and the predicate are: the outcome of the
  operation is the outcome of the loop (a failure leaves it unchanged), the clock is not
  read, the predicate is not called and nothing sleeps.
\<close>

theorem retry_timeout_zero:
  "retry E n ds 0 predicate w =
     (Some (case body E 0 of None \<Rightarrow> Finished | Some x \<Rightarrow> Raised (Thrown x)),
      w\<lparr>trace := trace w @ [Yielded SingleAttempt]\<rparr>)
   \<and> guards (snd (retry E n ds 0 predicate world0)) = [SingleAttempt]
   \<and> sleeps (snd (retry E n ds 0 predicate world0)) = []
   \<and> predicate_calls (snd (retry E n ds 0 predicate world0)) = []
   \<and> reads (snd (retry E n ds 0 predicate world0)) = 0"
  by (simp add: retry_single guards_def sleeps_def predicate_calls_def world0_def)

theorem retry_timeout_zero_witness:
  "retry (failing 1 True) 7 (iter [0, 1]) 0 true world0 =
     (Some (Raised (Thrown (Exc ''foo''))), \<lparr>reads = 0, trace = [Yielded SingleAttempt]\<rparr>)"
  using retry_timeout_zero [of "failing 1 True" 7 "iter [0, 1]" true world0]
  by (simp add: failing_def world0_def)

text \<open>
  Claim C9.  A negative timeout takes the same branch as the timeout 0: one non-catching
  guard, whatever the schedule (an empty one included) and the predicate, and no
  exception of the generator's own.
\<close>

theorem retry_negative_timeout:
  "timeout < 0 \<Longrightarrow>
   retry E n ds timeout predicate w = retry E n ds 0 predicate w
   \<and> retry E n ds timeout predicate w =
       (Some (case body E 0 of None \<Rightarrow> Finished | Some x \<Rightarrow> Raised (Thrown x)),
        w\<lparr>trace := trace w @ [Yielded SingleAttempt]\<rparr>)"
  by (simp add: retry_single)

theorem retry_negative_timeout_witness:
  "(- 5 :: real) < 0
   \<and> retry (failing 1 True) 7 Exhausted (- 5) true world0 =
       retry (failing 1 True) 7 Exhausted 0 true world0
   \<and> retry (failing 1 True) 7 Exhausted (- 5) true world0 =
       (Some (Raised (Thrown (Exc ''foo''))), \<lparr>reads = 0, trace = [Yielded SingleAttempt]\<rparr>)"
proof -
  have neg: "(- 5 :: real) < 0" by simp
  from retry_negative_timeout [OF neg, of "failing 1 True" 7 Exhausted true world0]
  show ?thesis by (auto simp add: failing_def world0_def)
qed

section \<open>The loop of the \<^verbatim>\<open>timeout > 0\<close> branch\<close>

declare rounds.simps [simp del]

lemma trace_emit [simp]: "trace (emit ev w) = trace w @ [ev]"
  by (simp add: emit_def)

lemma reads_emit [simp]: "reads (emit ev w) = reads w"
  by (simp add: emit_def)

lemma emit_reads_update [simp]: "emit ev (w\<lparr>reads := r\<rparr>) = (emit ev w)\<lparr>reads := r\<rparr>"
  by (simp add: emit_def)

lemma guards_emit [simp]:
  "guards (emit ev w) = guards w @ (case ev of Yielded g \<Rightarrow> [g] | _ \<Rightarrow> [])"
  by (simp add: guards_def emit_def)

lemma guards_reads_update [simp]: "guards (w\<lparr>reads := r\<rparr>) = guards w"
  by (simp add: guards_def)

lemma sleeps_emit [simp]:
  "sleeps (emit ev w) = sleeps w @ (case ev of Sleep d \<Rightarrow> [d] | _ \<Rightarrow> [])"
  by (simp add: sleeps_def emit_def)

lemma sleeps_reads_update [simp]: "sleeps (w\<lparr>reads := r\<rparr>) = sleeps w"
  by (simp add: sleeps_def)

lemma predicate_calls_emit [simp]:
  "predicate_calls (emit ev w) = predicate_calls w @ (case ev of PredicateCalled e \<Rightarrow> [e] | _ \<Rightarrow> [])"
  by (simp add: predicate_calls_def emit_def)

lemma predicate_calls_reads_update [simp]: "predicate_calls (w\<lparr>reads := r\<rparr>) = predicate_calls w"
  by (simp add: predicate_calls_def)

lemma retry_positive:
  "0 < timeout \<Longrightarrow>
   retry E n (Item d ds) timeout p w =
     rounds E p n 0
       \<lparr>go = [()], delays = ds, expiration = clock E (reads w) + timeout, delay = d\<rparr>
       (w\<lparr>reads := Suc (reads w)\<rparr>)"
  by (simp add: retry_def time_time_def next1_def)

lemma retry_empty:
  "0 < timeout \<Longrightarrow>
   retry E n Exhausted timeout p w =
     (Some (if pep479 E then Raised RuntimeError else Finished), w\<lparr>reads := Suc (reads w)\<rparr>)"
  by (simp add: retry_def time_time_def next1_def)

lemma rounds_stop: "go f = [] \<Longrightarrow> rounds E p n k f w = (Some Finished, w)"
  by (cases n) (simp_all add: rounds.simps)

lemma rounds_completes:
  "go f \<noteq> [] \<Longrightarrow> body E k = None \<Longrightarrow>
   rounds E p (Suc n) k f w =
     rounds E p n (Suc k) (advance (f\<lparr>go := butlast (go f)\<rparr>))
       (emit (Yielded (RepeatedAttempt (delay f))) w)"
  by (simp add: rounds.simps repeated_attempt_def)

lemma rounds_base_exception:
  "go f \<noteq> [] \<Longrightarrow> body E k = Some (BaseExc b) \<Longrightarrow>
   rounds E p (Suc n) k f w =
     (Some (Raised (Thrown (BaseExc b))), emit (Yielded (RepeatedAttempt (delay f))) w)"
  by (simp add: rounds.simps repeated_attempt_def)

lemma rounds_exception:
  "go f \<noteq> [] \<Longrightarrow> body E k = Some (Exc e) \<Longrightarrow>
   rounds E p (Suc n) k f w =
     (let w1 = (emit (Yielded (RepeatedAttempt (delay f))) w)\<lparr>reads := Suc (reads w)\<rparr> in
      if clock E (reads w) + delay f < expiration f then
        (case p e of
           Inl x \<Rightarrow> (Some (Raised (Thrown x)), emit (PredicateCalled e) w1)
         | Inr True \<Rightarrow>
             (if delay f < 0 \<or> \<not> sleep_accepts E (delay f)
              then (Some (Raised SleepError),
                    emit (LogInfo e (delay f)) (emit (PredicateCalled e) w1))
              else rounds E p n (Suc k) (advance f)
                     (emit (Sleep (delay f))
                        (emit (LogInfo e (delay f)) (emit (PredicateCalled e) w1))))
         | Inr False \<Rightarrow> (Some (Raised (Thrown (Exc e))), emit (PredicateCalled e) w1))
      else (Some (Raised (Thrown (Exc e))), w1))"
  by (simp add: rounds.simps repeated_attempt_def time_time_def time_sleep_def Let_def
      split: sum.splits bool.splits)


lemma rounds_out_of_rounds: "go f \<noteq> [] \<Longrightarrow> rounds E p 0 k f w = (None, w)"
  by (simp add: rounds.simps)

lemma go_advance [simp]: "go (advance f) = go f"
  by (simp add: advance_def split: prod.splits)

lemma expiration_advance [simp]: "expiration (advance f) = expiration f"
  by (simp add: advance_def split: prod.splits)

lemma rounds_trace_extends: "\<exists>rest. trace (snd (rounds E p n k f w)) = trace w @ rest"
proof (induction n arbitrary: k f w)
  case 0
  show ?case by (cases "go f = []") (simp_all add: rounds_stop rounds_out_of_rounds)
next
  case (Suc n)
  show ?case
  proof (cases "go f = []")
    case True
    then show ?thesis by (simp add: rounds_stop)
  next
    case False
    let ?w = "emit (Yielded (RepeatedAttempt (delay f))) w"
    show ?thesis
    proof (cases "body E k")
      case None
      from Suc.IH [of "Suc k" "advance (f\<lparr>go := butlast (go f)\<rparr>)" ?w]
      show ?thesis using False None by (auto simp add: rounds_completes)
    next
      case (Some x)
      show ?thesis
      proof (cases x)
        case (BaseExc b)
        then show ?thesis using False Some by (simp add: rounds_base_exception)
      next
        case (Exc e)
        from Suc.IH [of "Suc k" "advance f"
            "emit (Sleep (delay f)) (emit (LogInfo e (delay f))
               (emit (PredicateCalled e) (?w\<lparr>reads := Suc (reads w)\<rparr>)))"]
        show ?thesis using False Some Exc
          by (auto simp add: rounds_exception Let_def split: sum.splits bool.splits)
      qed
    qed
  qed
qed

lemma rounds_first_yield:
  assumes "go f \<noteq> []"
  shows "\<exists>rest. trace (snd (rounds E p (Suc n) k f w))
           = trace w @ Yielded (RepeatedAttempt (delay f)) # rest"
proof (cases "body E k")
  case None
  from rounds_trace_extends [of E p n "Suc k" "advance (f\<lparr>go := butlast (go f)\<rparr>)"
      "emit (Yielded (RepeatedAttempt (delay f))) w"]
  show ?thesis using assms None by (auto simp add: rounds_completes)
next
  case (Some x)
  show ?thesis
  proof (cases x)
    case (BaseExc b)
    then show ?thesis using assms Some by (simp add: rounds_base_exception)
  next
    case (Exc e)
    from rounds_trace_extends [of E p n "Suc k" "advance f"
        "emit (Sleep (delay f)) (emit (LogInfo e (delay f))
           (emit (PredicateCalled e)
              ((emit (Yielded (RepeatedAttempt (delay f))) w)\<lparr>reads := Suc (reads w)\<rparr>)))"]
    show ?thesis using assms Some Exc
      by (auto simp add: rounds_exception Let_def split: sum.splits bool.splits)
  qed
qed

subsection \<open>The decision of a guard\<close>

text \<open>
  Claim C1, amended.  In the \<^verbatim>\<open>timeout > 0\<close> branch (the loop \<open>rounds\<close>), let a guard be
  yielded (\<^verbatim>\<open>go\<close> is not empty), let the operation inside it raise the exception \<open>e\<close>, and
  let the predicate return a truth value \<open>b\<close> on \<open>e\<close>.  The clock is read once, giving
  \<open>clock E (reads w)\<close>, and the sum and the comparison below are the ones the code computes.

  \<^item> If \<open>clock E (reads w) + delay f < expiration f\<close> and \<open>b\<close>, and \<^verbatim>\<open>time.sleep\<close> takes the
    delay of the round, the failure is suppressed: the predicate call and the log line
    are followed by a sleep of exactly this round's delay, the loop goes on with the next
    delay, and, when a further round is permitted, the next thing that happens is the
    yield of the next guard.
  \<^item> If the comparison holds and \<open>b\<close>, but \<^verbatim>\<open>time.sleep\<close> refuses the delay, the failure is
    not suppressed: the exception of \<^verbatim>\<open>time.sleep\<close> leaves the loop after the log line, and
    no further guard is yielded.
  \<^item> Otherwise the loop ends with \<open>e\<close> itself, unwrapped; nothing sleeps and the guard of
    this round is the last one yielded.
\<close>

theorem repeated_attempt_decision:
  assumes "go f \<noteq> []" and "body E k = Some (Exc e)" and "p e = Inr b"
  shows
    "if clock E (reads w) + delay f < expiration f \<and> b
     then (if 0 \<le> delay f \<and> sleep_accepts E (delay f)
           then rounds E p (Suc n) k f w =
                  rounds E p n (Suc k) (advance f)
                    (w\<lparr>reads := Suc (reads w),
                       trace := trace w @ [Yielded (RepeatedAttempt (delay f)), PredicateCalled e,
                                           LogInfo e (delay f), Sleep (delay f)]\<rparr>)
                \<and> (\<exists>rest. trace (snd (rounds E p (Suc (Suc n)) k f w)) =
                      trace w @ [Yielded (RepeatedAttempt (delay f)), PredicateCalled e,
                                 LogInfo e (delay f), Sleep (delay f),
                                 Yielded (RepeatedAttempt (delay (advance f)))] @ rest)
           else rounds E p (Suc n) k f w =
                  (Some (Raised SleepError),
                   w\<lparr>reads := Suc (reads w),
                      trace := trace w @ [Yielded (RepeatedAttempt (delay f)), PredicateCalled e,
                                          LogInfo e (delay f)]\<rparr>))
     else rounds E p (Suc n) k f w =
            (Some (Raised (Thrown (Exc e))),
             w\<lparr>reads := Suc (reads w),
                trace := trace w @ Yielded (RepeatedAttempt (delay f))
                  # (if clock E (reads w) + delay f < expiration f
                     then [PredicateCalled e] else [])\<rparr>)"
proof (cases "clock E (reads w) + delay f < expiration f \<and> b")
  case False
  then show ?thesis using assms
    by (cases b) (auto simp add: rounds_exception Let_def emit_def)
next
  case True
  note retried = this
  show ?thesis
  proof (cases "0 \<le> delay f \<and> sleep_accepts E (delay f)")
    case False
    then show ?thesis using assms retried
      by (auto simp add: rounds_exception Let_def emit_def not_le)
  next
    case True
    let ?w = "w\<lparr>reads := Suc (reads w),
                   trace := trace w @ [Yielded (RepeatedAttempt (delay f)), PredicateCalled e,
                                       LogInfo e (delay f), Sleep (delay f)]\<rparr>"
    have accepted: "\<not> delay f < 0" using True by (simp add: not_less)
    have step: "rounds E p (Suc m) k f w = rounds E p m (Suc k) (advance f) ?w" for m
      using assms retried True accepted by (simp add: rounds_exception Let_def emit_def)
    from rounds_first_yield [of "advance f" E p n "Suc k" ?w] assms(1)
    obtain rest where "trace (snd (rounds E p (Suc n) (Suc k) (advance f) ?w))
        = trace ?w @ Yielded (RepeatedAttempt (delay (advance f))) # rest"
      by auto
    then have "trace (snd (rounds E p (Suc (Suc n)) k f w)) =
                  trace w @ [Yielded (RepeatedAttempt (delay f)), PredicateCalled e,
                             LogInfo e (delay f), Sleep (delay f),
                             Yielded (RepeatedAttempt (delay (advance f)))] @ rest"
      by (simp add: step [of "Suc n"])
    then show ?thesis using retried True step [of n] by simp
  qed
qed

theorem repeated_attempt_decision_witness:
  "go \<lparr>go = [()], delays = Exhausted, expiration = 10 :: real, delay = 2\<rparr> \<noteq> []
   \<and> body (failing 1 True) 0 = Some (Exc ''foo'')
   \<and> true ''foo'' = Inr True
   \<and> never ''foo'' = Inr False
   \<and> rounds (failing 1 True) true 1 0
         \<lparr>go = [()], delays = Exhausted, expiration = 10, delay = 2\<rparr> world0
       = (None, \<lparr>reads = 1, trace = [Yielded (RepeatedAttempt 2), PredicateCalled ''foo'',
                                       LogInfo ''foo'' 2, Sleep 2]\<rparr>)
   \<and> rounds (failing 1 True) never 1 0
         \<lparr>go = [()], delays = Exhausted, expiration = 10, delay = 2\<rparr> world0
       = (Some (Raised (Thrown (Exc ''foo''))),
          \<lparr>reads = 1, trace = [Yielded (RepeatedAttempt 2), PredicateCalled ''foo'']\<rparr>)"
proof -
  let ?f = "\<lparr>go = [()], delays = Exhausted, expiration = 10 :: real, delay = 2\<rparr>"
  have h1: "go ?f \<noteq> []" by simp
  have h2: "body (failing 1 True) 0 = Some (Exc ''foo'')" by (simp add: failing_def)
  have h3: "true ''foo'' = Inr True" by (simp add: true_def)
  have h3': "never ''foo'' = (Inr False :: string thrown + bool)" by (simp add: never_def)
  from repeated_attempt_decision
         [where f = ?f and E = "failing 1 True" and k = 0 and e = "''foo''" and p = true
            and b = True and w = world0 and n = 0, OF h1 h2 h3]
       repeated_attempt_decision
         [where f = ?f and E = "failing 1 True" and k = 0 and e = "''foo''" and p = never
            and b = False and w = world0 and n = 0, OF h1 h2 h3']
  show ?thesis using h2 h3 h3'
    by (simp add: failing_def world0_def rounds_out_of_rounds)
qed

text \<open>
  The claim as first stated, with the comparison and the predicate alone deciding, fails
  where \<^verbatim>\<open>time.sleep\<close> refuses the delay.  In the run below (\<^verbatim>\<open>delays=[1e10]\<close>,
  \<^verbatim>\<open>timeout=1e11\<close>, a predicate that is always true) the comparison holds and the
  predicate is true, yet what leaves the loop is the exception of \<^verbatim>\<open>time.sleep\<close>: the
  failure is not suppressed, and it is not \<open>e\<close> that is raised.
\<close>

theorem repeated_attempt_sleep_refused_counterexample:
  "retry (failing 1 True) (Suc 0) (iter [10000000000]) 100000000000 true world0 =
     (Some (Raised SleepError),
      \<lparr>reads = 2,
       trace = [Yielded (RepeatedAttempt 10000000000), PredicateCalled ''foo'',
                LogInfo ''foo'' 10000000000]\<rparr>)"
  by (simp add: retry_positive rounds_exception failing_def true_def world0_def Let_def emit_def)

text \<open>
  Claim C10.  In the \<^verbatim>\<open>timeout > 0\<close> branch, when the operation of a round raises and
  the time read plus the round's delay is not before the deadline, the run is the same
  for any two predicates, also for ones that raise: the exception of the operation leaves
  the loop, and the trace of the round holds the yield of its guard and nothing else, so
  the predicate is not called and nothing sleeps.
\<close>

theorem deadline_passed_ignores_predicate:
  assumes "go f \<noteq> []" and "body E k = Some x"
    and "expiration f \<le> clock E (reads w) + delay f"
  shows "rounds E p (Suc n) k f w = rounds E q (Suc n) k f w
       \<and> fst (rounds E p (Suc n) k f w) = Some (Raised (Thrown x))
       \<and> trace (snd (rounds E p (Suc n) k f w)) = trace w @ [Yielded (RepeatedAttempt (delay f))]"
proof -
  have late: "\<not> clock E (reads w) + delay f < expiration f"
    using assms(3) by (simp add: not_less)
  show ?thesis using assms(1,2) late
    by (cases x) (simp_all add: rounds_exception rounds_base_exception Let_def)
qed


theorem deadline_passed_ignores_predicate_witness:
  "go \<lparr>go = [()], delays = Exhausted, expiration = 1 :: real, delay = 2\<rparr> \<noteq> []
   \<and> body (failing 1 True) 0 = Some (Exc ''foo'')
   \<and> expiration \<lparr>go = [()], delays = Exhausted, expiration = 1, delay = 2\<rparr>
         \<le> clock (failing 1 True) (reads (world0 :: (string, real) world))
            + delay \<lparr>go = [()], delays = Exhausted, expiration = 1, delay = 2\<rparr>
   \<and> rounds (failing 1 True) true 1 0
         \<lparr>go = [()], delays = Exhausted, expiration = 1, delay = 2\<rparr> world0
       = rounds (failing 1 True) never 1 0
           \<lparr>go = [()], delays = Exhausted, expiration = 1, delay = 2\<rparr> world0
   \<and> rounds (failing 1 True) true 1 0
         \<lparr>go = [()], delays = Exhausted, expiration = 1, delay = 2\<rparr> world0
       = (Some (Raised (Thrown (Exc ''foo''))),
          \<lparr>reads = 1, trace = [Yielded (RepeatedAttempt 2)]\<rparr>)"
proof -
  let ?f = "\<lparr>go = [()], delays = Exhausted, expiration = 1 :: real, delay = 2\<rparr>"
  have h1: "go ?f \<noteq> []" by simp
  have h2: "body (failing 1 True) 0 = Some (Exc ''foo'')" by (simp add: failing_def)
  have h3: "expiration ?f \<le> clock (failing 1 True) (reads (world0 :: (string, real) world)) + delay ?f"
    by (simp add: failing_def world0_def)
  from deadline_passed_ignores_predicate
         [where f = ?f and E = "failing 1 True" and k = 0 and x = "Exc ''foo''"
            and w = world0 and p = true and q = never and n = 0, OF h1 h2 h3]
  show ?thesis using h2 h3
    by (simp add: rounds_exception failing_def world0_def emit_def)
qed

lemma guards_rounds_extends:
  "\<exists>gs. guards (snd (rounds E p n k f w)) = guards w @ gs"
proof -
  from rounds_trace_extends [of E p n k f w]
  obtain rest where "trace (snd (rounds E p n k f w)) = trace w @ rest" by blast
  then show ?thesis by (simp add: guards_def)
qed

lemma rounds_success_stops:
  "go f = [()] \<Longrightarrow> body E k = None \<Longrightarrow> j \<le> k \<Longrightarrow>
   length (guards w) + (k - j) < length (guards (snd (rounds E p n j f w))) \<Longrightarrow>
   fst (rounds E p n j f w) = Some Finished
   \<and> length (guards (snd (rounds E p n j f w))) = Suc (length (guards w) + (k - j))
   \<and> (\<exists>pre g. trace (snd (rounds E p n j f w)) = pre @ [Yielded g])"
proof (induction n arbitrary: j f w)
  case 0
  then show ?case by (simp add: rounds_out_of_rounds)
next
  case (Suc n)
  have go: "go f \<noteq> []" using Suc.prems(1) by simp
  let ?w = "emit (Yielded (RepeatedAttempt (delay f))) w"
  show ?case
  proof (cases "body E j")
    case None
    have "rounds E p (Suc n) j f w = (Some Finished, ?w)"
      using go None Suc.prems(1) by (simp add: rounds_completes rounds_stop)
    then show ?thesis using Suc.prems by auto
  next
    case (Some x)
    then have jk: "j < k" using Suc.prems(2,3) by (cases "j = k") auto
    show ?thesis
    proof (cases x)
      case (BaseExc b)
      then show ?thesis using go Some Suc.prems(4) jk by (simp add: rounds_base_exception)
    next
      case (Exc e)
      let ?w' = "emit (Sleep (delay f)) (emit (LogInfo e (delay f))
                   (emit (PredicateCalled e) (?w\<lparr>reads := Suc (reads w)\<rparr>)))"
      show ?thesis
      proof (cases "rounds E p (Suc n) j f w = rounds E p n (Suc j) (advance f) ?w'")
        case True
        have "length (guards ?w') + (k - Suc j) < length (guards (snd (rounds E p n (Suc j) (advance f) ?w')))"
          using Suc.prems(4) jk True by simp
        from Suc.IH [of "advance f" "Suc j" ?w', OF _ Suc.prems(2) _ this]
        show ?thesis using True Suc.prems(1) jk by simp
      next
        case False
        then have "length (guards (snd (rounds E p (Suc n) j f w))) = Suc (length (guards w))"
          using go Some Exc
          by (auto simp add: rounds_exception Let_def split: sum.splits bool.splits if_splits)
        then show ?thesis using Suc.prems(4) jk by simp
      qed
    qed
  qed
qed

lemma guards_world0 [simp]: "guards world0 = []"
  by (simp add: guards_def world0_def)

lemma success_ends_loop_from:
  assumes "guards w = []" and "body E k = None"
    and "k < length (guards (snd (retry E n ds timeout p w)))"
  shows "fst (retry E n ds timeout p w) = Some Finished
       \<and> length (guards (snd (retry E n ds timeout p w))) = Suc k
       \<and> (\<exists>pre g. trace (snd (retry E n ds timeout p w)) = pre @ [Yielded g])"
proof (cases "0 < timeout")
  case False
  have "guards (w\<lparr>trace := trace w @ [Yielded SingleAttempt]\<rparr>) = [SingleAttempt]"
    using assms(1) by (simp add: guards_def)
  then show ?thesis using False assms(2,3)
    by (simp add: retry_single)
next
  case True
  show ?thesis
  proof (cases ds)
    case Exhausted
    then show ?thesis using True assms(1,3) by (simp add: retry_empty)
  next
    case (Item d ds')
    let ?f = "\<lparr>go = [()], delays = ds', expiration = clock E (reads w) + timeout, delay = d\<rparr>"
    let ?w = "w\<lparr>reads := Suc (reads w)\<rparr>"
    have eq: "retry E n ds timeout p w = rounds E p n 0 ?f ?w"
      using True Item by (simp add: retry_positive)
    have g0: "guards ?w = []" using assms(1) by simp
    from rounds_success_stops [of ?f E k 0 ?w p n] assms(2,3) eq g0
    show ?thesis by simp
  qed
qed

text \<open>
  Claim C3.  For every timeout, schedule and predicate: when guard \<open>k\<close> is yielded and
  the operation inside it completes, the loop finishes without an exception, guard \<open>k\<close>
  is the last guard, and its yield is the last event of the trace: no predicate call and
  no sleep follows it.
\<close>

theorem success_ends_loop:
  assumes "body E k = None"
    and "k < length (guards (snd (retry E n ds timeout p world0)))"
  shows "fst (retry E n ds timeout p world0) = Some Finished
       \<and> length (guards (snd (retry E n ds timeout p world0))) = Suc k
       \<and> (\<exists>pre g. trace (snd (retry E n ds timeout p world0)) = pre @ [Yielded g])"
  using success_ends_loop_from [where w = world0, OF guards_world0 assms] .

lemma run_succeeding_at_2:
  "retry (succeeding_at 2 1) 5 (iter [0, 1]) 100 true world0 =
     (Some Finished,
      \<lparr>reads = 3,
       trace = [Yielded (RepeatedAttempt 0), PredicateCalled ''foo'', LogInfo ''foo'' 0, Sleep 0,
                Yielded (RepeatedAttempt 1), PredicateCalled ''foo'', LogInfo ''foo'' 1, Sleep 1,
                Yielded (RepeatedAttempt 1)]\<rparr>)"
  by (simp add: eval_nat_numeral retry_def rounds.simps repeated_attempt_def time_time_def
      time_sleep_def next1_def next2_def advance_def emit_def succeeding_at_def true_def world0_def)

theorem success_ends_loop_witness:
  "body (succeeding_at 2 1) 2 = None
   \<and> 2 < length (guards (snd (retry (succeeding_at 2 1) 5 (iter [0, 1]) 100 true world0)))
   \<and> fst (retry (succeeding_at 2 1) 5 (iter [0, 1]) 100 true world0) = Some Finished
   \<and> length (guards (snd (retry (succeeding_at 2 1) 5 (iter [0, 1]) 100 true world0))) = 3
   \<and> last (trace (snd (retry (succeeding_at 2 1) 5 (iter [0, 1]) 100 true world0)))
       = Yielded (RepeatedAttempt 1)"
proof -
  have h1: "body (succeeding_at 2 1) 2 = None" by (simp add: succeeding_at_def)
  have h2: "2 < length (guards (snd (retry (succeeding_at 2 1) 5 (iter [0, 1]) 100 true world0)))"
    unfolding run_succeeding_at_2 by (simp add: guards_def)
  from success_ends_loop [OF h1 h2] show ?thesis
    using h1 h2 unfolding run_succeeding_at_2 by simp
qed

text \<open>
  Claim C4.  With a predicate that returns \<^verbatim>\<open>False\<close> on every exception, such as the
  default \<open>never\<close>, a timeout other than 0 and a schedule that is not empty, the loop
  yields exactly one guard and ends with the outcome of the operation inside it: a failure
  leaves the loop as it is, and nothing sleeps, whatever the delays are.
\<close>

theorem predicate_false_single_guard:
  assumes "\<And>e. p e = Inr False" and "timeout \<noteq> 0"
  shows "fst (retry E (Suc n) (Item d ds) timeout p w)
           = Some (case body E 0 of None \<Rightarrow> Finished | Some x \<Rightarrow> Raised (Thrown x))
       \<and> guards (snd (retry E (Suc n) (Item d ds) timeout p w))
           = guards w @ [if 0 < timeout then RepeatedAttempt d else SingleAttempt]
       \<and> sleeps (snd (retry E (Suc n) (Item d ds) timeout p w)) = sleeps w"
proof (cases "0 < timeout")
  case False
  then show ?thesis
    by (cases "body E 0") (simp_all add: retry_single guards_def sleeps_def)
next
  case True
  show ?thesis
  proof (cases "body E 0")
    case None
    then show ?thesis using True
      by (simp add: retry_positive rounds_completes rounds_stop)
  next
    case (Some x)
    then show ?thesis using True assms(1)
      by (cases x) (simp_all add: retry_positive rounds_exception rounds_base_exception Let_def)
  qed
qed

theorem predicate_false_single_guard_witness:
  "(\<forall>e :: string. never e = Inr False) \<and> (300 :: real) \<noteq> 0
   \<and> retry (failing 1 True) 9 (iter [1, 4, 16]) 300 never world0
       = (Some (Raised (Thrown (Exc ''foo''))),
          \<lparr>reads = 2, trace = [Yielded (RepeatedAttempt 1), PredicateCalled ''foo'']\<rparr>)
   \<and> guards (snd (retry (failing 1 True) 9 (iter [1, 4, 16]) 300 never world0))
       = [RepeatedAttempt 1]
   \<and> sleeps (snd (retry (failing 1 True) 9 (iter [1, 4, 16]) 300 never world0)) = []"
proof -
  have h1: "never e = (Inr False :: string thrown + bool)" for e :: string
    by (simp add: never_def)
  have h2: "(300 :: real) \<noteq> 0" by simp
  have run: "retry (failing 1 True) 9 (iter [1, 4, 16]) 300 never world0
       = (Some (Raised (Thrown (Exc ''foo''))),
          \<lparr>reads = 2, trace = [Yielded (RepeatedAttempt 1), PredicateCalled ''foo'']\<rparr>)"
    by (simp add: eval_nat_numeral retry_def rounds.simps repeated_attempt_def time_time_def
      next1_def emit_def failing_def never_def world0_def)
  from predicate_false_single_guard
         [where p = never and timeout = 300 and E = "failing 1 True" and n = 8
            and d = 1 and ds = "iter [4, 16]" and w = world0, OF h1 h2]
  show ?thesis using h1 unfolding run by (simp add: guards_def sleeps_def)
qed

lemma delay_go_update [simp]: "advance (f\<lparr>go := g\<rparr>) = (advance f)\<lparr>go := g\<rparr>"
  by (simp add: advance_def split: prod.splits)

lemma advance_schedule:
  assumes "ds \<noteq> []" and "delay f = round_delay ds j" and "delays f = iter (drop (Suc j) ds)"
  shows "delay (advance f) = round_delay ds (Suc j)
       \<and> delays (advance f) = iter (drop (Suc (Suc j)) ds)"
proof (cases "Suc j < length ds")
  case True
  then have "drop (Suc j) ds = ds ! Suc j # drop (Suc (Suc j)) ds"
    by (simp add: Cons_nth_drop_Suc)
  then show ?thesis using assms True
    by (simp add: advance_def next2_def round_delay_def)
next
  case False
  then have "delay f = last ds" using assms(1,2)
    by (cases "j < length ds") (auto simp add: round_delay_def last_conv_nth intro: arg_cong [where f = "nth ds"])
  then show ?thesis using assms False
    by (simp add: advance_def next2_def round_delay_def)
qed

lemma rounds_guards_schedule:
  "ds \<noteq> [] \<Longrightarrow> delay f = round_delay ds j \<Longrightarrow> delays f = iter (drop (Suc j) ds) \<Longrightarrow>
   \<exists>m. guards (snd (rounds E p n j f w))
         = guards w @ map (\<lambda>k. RepeatedAttempt (round_delay ds k)) [j..<j + m]"
proof (induction n arbitrary: j f w)
  case 0
  have "guards (snd (rounds E p 0 j f w)) = guards w"
    by (cases "go f = []") (simp_all add: rounds_stop rounds_out_of_rounds)
  then show ?case by (intro exI [of _ 0]) simp
next
  case (Suc n)
  let ?g = "RepeatedAttempt (round_delay ds j)"
  let ?w = "emit (Yielded (RepeatedAttempt (delay f))) w"
  have one: "\<exists>m. guards w @ [?g] = guards w @ map (\<lambda>k. RepeatedAttempt (round_delay ds k)) [j..<j + m]"
    by (intro exI [of _ 1]) simp
  have more: "\<exists>m. guards (snd (rounds E p n (Suc j) (advance f') w'))
         = guards w @ map (\<lambda>k. RepeatedAttempt (round_delay ds k)) [j..<j + m]"
    if f': "delay f' = delay f" "delays f' = delays f"
      and w': "guards w' = guards w @ [?g]" for f' w'
  proof -
    have "delay (advance f') = round_delay ds (Suc j)
        \<and> delays (advance f') = iter (drop (Suc (Suc j)) ds)"
      using advance_schedule [of ds f' j] Suc.prems f' by simp
    with Suc.IH [of "advance f'" "Suc j" w'] Suc.prems(1)
    obtain m where "guards (snd (rounds E p n (Suc j) (advance f') w'))
         = guards w' @ map (\<lambda>k. RepeatedAttempt (round_delay ds k)) [Suc j..<Suc j + m]"
      by blast
    then have "guards (snd (rounds E p n (Suc j) (advance f') w'))
         = guards w @ map (\<lambda>k. RepeatedAttempt (round_delay ds k)) [j..<j + Suc m]"
      using w' by (simp add: upt_conv_Cons del: upt_Suc)
    then show ?thesis by blast
  qed
  show ?case
  proof (cases "go f = []")
    case True
    then have "guards (snd (rounds E p (Suc n) j f w)) = guards w" by (simp add: rounds_stop)
    then show ?thesis by (intro exI [of _ 0]) simp
  next
    case False
    show ?thesis
    proof (cases "body E j")
      case None
      from more [of "f\<lparr>go := butlast (go f)\<rparr>" ?w]
      show ?thesis using False None Suc.prems(2) by (simp add: rounds_completes)
    next
      case (Some x)
      show ?thesis
      proof (cases x)
        case (BaseExc b)
        then show ?thesis using False Some one Suc.prems(2)
          by (simp add: rounds_base_exception)
      next
        case (Exc e)
        from more [of f "emit (Sleep (delay f)) (emit (LogInfo e (delay f))
               (emit (PredicateCalled e) (?w\<lparr>reads := Suc (reads w)\<rparr>)))"]
        show ?thesis using False Some Exc one Suc.prems(2)
          by (simp add: rounds_exception Let_def split: sum.splits bool.splits)
      qed
    qed
  qed
qed

lemma schedule_in_order_from:
  assumes "guards w = []" and "ds \<noteq> []" and "0 < timeout"
  shows "guards (snd (retry E n (iter ds) timeout p w))
           = map (\<lambda>k. RepeatedAttempt (round_delay ds k))
               [0..<length (guards (snd (retry E n (iter ds) timeout p w)))]"
proof -
  obtain d ds' where ds: "ds = d # ds'" using assms(2) by (cases ds) auto
  let ?f = "\<lparr>go = [()], delays = iter ds',
             expiration = clock E (reads w) + timeout, delay = d\<rparr>"
  let ?w = "w\<lparr>reads := Suc (reads w)\<rparr>"
  have eq: "retry E n (iter ds) timeout p w = rounds E p n 0 ?f ?w"
    using assms(3) ds by (simp add: retry_positive)
  have g0: "guards ?w = []" using assms(1) by simp
  from rounds_guards_schedule [of ds ?f 0 E p n ?w] ds
  obtain m where m: "guards (snd (rounds E p n 0 ?f ?w))
      = map (\<lambda>k. RepeatedAttempt (round_delay ds k)) [0..<m]"
    using g0 by (auto simp add: round_delay_def)
  then have "length (guards (snd (rounds E p n 0 ?f ?w))) = m" by simp
  with m show ?thesis unfolding eq by simp
qed

text \<open>
  Claim C5.  With \<^verbatim>\<open>timeout > 0\<close> and a finite schedule \<open>ds\<close> of length at least 1, the
  guard of round \<open>k\<close> (counted from 0) carries the delay \<open>ds ! k\<close> while \<open>k < length ds\<close>,
  and the last value of \<open>ds\<close> in every later round.
\<close>

theorem schedule_in_order_then_last:
  assumes "ds \<noteq> []" and "0 < timeout"
  shows "guards (snd (retry E n (iter ds) timeout p world0))
           = map (\<lambda>k. RepeatedAttempt (if k < length ds then ds ! k else last ds))
               [0..<length (guards (snd (retry E n (iter ds) timeout p world0)))]"
  using schedule_in_order_from [where w = world0, OF guards_world0 assms]
  unfolding round_delay_def .

lemma run_failing_5:
  "retry (failing 1 True) 5 (iter [0, 2]) 100 true world0 =
     (None,
      \<lparr>reads = 6,
       trace = [Yielded (RepeatedAttempt 0), PredicateCalled ''foo'', LogInfo ''foo'' 0, Sleep 0,
                Yielded (RepeatedAttempt 2), PredicateCalled ''foo'', LogInfo ''foo'' 2, Sleep 2,
                Yielded (RepeatedAttempt 2), PredicateCalled ''foo'', LogInfo ''foo'' 2, Sleep 2,
                Yielded (RepeatedAttempt 2), PredicateCalled ''foo'', LogInfo ''foo'' 2, Sleep 2,
                Yielded (RepeatedAttempt 2), PredicateCalled ''foo'', LogInfo ''foo'' 2, Sleep 2]\<rparr>)"
  by (simp add: eval_nat_numeral retry_def rounds.simps repeated_attempt_def time_time_def
      time_sleep_def next1_def next2_def advance_def emit_def failing_def true_def world0_def)

theorem schedule_in_order_then_last_witness:
  "[0, 2 :: real] \<noteq> [] \<and> (0 :: real) < 100
   \<and> guards (snd (retry (failing 1 True) 5 (iter [0, 2]) 100 true world0))
       = [RepeatedAttempt 0, RepeatedAttempt 2, RepeatedAttempt 2, RepeatedAttempt 2,
          RepeatedAttempt 2]
   \<and> guards (snd (retry (failing 1 True) 5 (iter [0, 2]) 100 true world0))
       = map (\<lambda>k. RepeatedAttempt (if k < length [0, 2 :: real] then [0, 2] ! k else last [0, 2]))
           [0..<5]"
proof -
  have h1: "[0, 2 :: real] \<noteq> []" by simp
  have h2: "(0 :: real) < 100" by simp
  have len: "length (guards (snd (retry (failing 1 True) 5 (iter [0, 2]) 100 true world0))) = 5"
    unfolding run_failing_5 by (simp add: guards_def)
  from schedule_in_order_then_last [OF h1 h2, of "failing 1 True" 5 true]
  have "guards (snd (retry (failing 1 True) 5 (iter [0, 2]) 100 true world0))
       = map (\<lambda>k. RepeatedAttempt (if k < length [0, 2 :: real] then [0, 2] ! k else last [0, 2]))
           [0..<5]"
    unfolding len .
  moreover have "guards (snd (retry (failing 1 True) 5 (iter [0, 2]) 100 true world0))
       = [RepeatedAttempt 0, RepeatedAttempt 2, RepeatedAttempt 2, RepeatedAttempt 2,
          RepeatedAttempt 2]"
    unfolding run_failing_5 by (simp add: guards_def)
  ultimately show ?thesis by simp
qed








section \<open>The logging helpers, verified\<close>




text \<open>
  Claim C8.  For each of the four combinations of \<^verbatim>\<open>existed\<close> and \<^verbatim>\<open>failure\<close>,
  \<^verbatim>\<open>log_delete_completed\<close> logs exactly one record: not-found at info level when
  \<^verbatim>\<open>existed\<close> is false, success at info level when \<^verbatim>\<open>existed\<close> is true and \<^verbatim>\<open>failure\<close>
  is false, completed-with-errors at error level when both are true.  The three records
  differ from each other.
\<close>

theorem log_delete_completed_cases:
  "log_delete_completed lg locator existed failure =
     lg @ [if \<not> existed then
             (INFO, ''No job store found at location '' @ quoted locator @ ''.'')
           else if \<not> failure then
             (INFO, ''Successfully deleted job store at location '' @ quoted locator @ ''.'')
           else
             (ERROR, ''Completed job store deletion at location '' @ quoted locator
                     @ '' with errors see log for details.'')]
   \<and> log_delete_completed lg locator False failure \<noteq> log_delete_completed lg locator True False
   \<and> log_delete_completed lg locator False failure \<noteq> log_delete_completed lg locator True True
   \<and> log_delete_completed lg locator True False \<noteq> log_delete_completed lg locator True True"
  by (simp add: log_delete_completed_def)

end
